theory Spec2Isabelle
  imports Complex_Main "HOL-Library.Sublist"
begin

section \<open>The RSI scanner of \<open>src/main.py\<close>\<close>

text \<open>
  The development follows \<open>src/main.py\<close> function by function. Two conventions hold
  throughout.

  \<^item> Floating point numbers are modelled by exact reals, extended by one value \<open>NaN\<close>
    that stands for "not a finite number". Rounding and overflow are therefore not part
    of the model; what is kept is where pandas and numpy produce and skip \<open>NaN\<close>, which
    decides the seed of the smoothing and the guard of the division. Where a property
    depends on the sums staying finite, its statement bounds the closes so that no sum
    or average passes the largest double.
  \<^item> Python exceptions are values of the type \<open>exn\<close>; a function that can raise returns
    \<open>exn + 'a\<close>, with \<open>Inl\<close> for the exception.
\<close>

subsection \<open>Floats and exceptions\<close>

datatype npfloat = Num real | NaN

datatype exn = ZeroDivisionError | IndexError | TypeError | ConnectionError

fun fadd :: "npfloat \<Rightarrow> npfloat \<Rightarrow> npfloat" where
  "fadd (Num a) (Num b) = Num (a + b)"
| "fadd _ _ = NaN"

fun fsub :: "npfloat \<Rightarrow> npfloat \<Rightarrow> npfloat" where
  "fsub (Num a) (Num b) = Num (a - b)"
| "fsub _ _ = NaN"

fun fmul :: "npfloat \<Rightarrow> npfloat \<Rightarrow> npfloat" where
  "fmul (Num a) (Num b) = Num (a * b)"
| "fmul _ _ = NaN"

text \<open>
  Array division of numpy does not raise on a zero divisor: it yields an infinity or a NaN
  (with a warning). The model has the single non-finite value for both.
\<close>

fun fdiv :: "npfloat \<Rightarrow> npfloat \<Rightarrow> npfloat" where
  "fdiv (Num a) (Num b) = (if b = 0 then NaN else Num (a / b))"
| "fdiv _ _ = NaN"

fun fneg :: "npfloat \<Rightarrow> npfloat" where
  "fneg (Num a) = Num (- a)"
| "fneg NaN = NaN"

subsection \<open>The pandas and numpy operations used by \<open>calculate_precise_rsi\<close>\<close>

text \<open>
  \<open>Series.diff()\<close>: a series of the same length, whose first entry is NaN and whose
  entry \<open>i\<close> is \<open>prices[i] - prices[i-1]\<close>.
\<close>

fun diff :: "real list \<Rightarrow> npfloat list" where
  "diff [] = []"
| "diff (p # ps) = NaN # map (\<lambda>(a, b). Num (b - a)) (zip (p # ps) ps)"

text \<open>\<open>Series.clip(lower=lo)\<close> and \<open>Series.clip(upper=hi)\<close> leave NaN in place.\<close>

fun clip_lower :: "real \<Rightarrow> npfloat \<Rightarrow> npfloat" where
  "clip_lower lo (Num x) = Num (max lo x)"
| "clip_lower lo NaN = NaN"

fun clip_upper :: "real \<Rightarrow> npfloat \<Rightarrow> npfloat" where
  "clip_upper hi (Num x) = Num (min hi x)"
| "clip_upper hi NaN = NaN"

text \<open>
  \<open>Series.mean()\<close> skips NaN entries (\<open>skipna=True\<close> is the default) and is NaN
  when no entry is left.
\<close>

fun nums :: "npfloat list \<Rightarrow> real list" where
  "nums [] = []"
| "nums (Num x # xs) = x # nums xs"
| "nums (NaN # xs) = nums xs"

definition mean :: "npfloat list \<Rightarrow> npfloat" where
  "mean xs = (if nums xs = [] then NaN
              else Num (sum_list (nums xs) / real (length (nums xs))))"

text \<open>
  The positional slice \<open>xs[:k]\<close>: the first \<open>k\<close> entries, and for a negative \<open>k\<close>
  all but the last \<open>-k\<close>.
\<close>

definition slice_to :: "int \<Rightarrow> 'a list \<Rightarrow> 'a list" where
  "slice_to k xs = (if 0 \<le> k then take (nat k) xs
                    else take (length xs - nat (- k)) xs)"

text \<open>
  \<open>Series.iloc[i]\<close>: a negative position counts from the end; a position outside the
  series raises IndexError.
\<close>

definition iloc :: "'a list \<Rightarrow> int \<Rightarrow> exn + 'a" where
  "iloc xs i =
     (if 0 \<le> i \<and> i < int (length xs) then Inr (xs ! nat i)
      else if i < 0 \<and> 0 \<le> int (length xs) + i then Inr (xs ! nat (int (length xs) + i))
      else Inl IndexError)"

text \<open>
  \<open>np.divide(gains, losses, out=np.zeros_like(gains), where=losses != 0)\<close>, for one
  position: the quotient is computed only where the divisor differs from zero (a NaN
  differs from zero), and the entry keeps the zero of \<open>out\<close> elsewhere.
\<close>

definition np_divide_where :: "npfloat \<Rightarrow> npfloat \<Rightarrow> npfloat" where
  "np_divide_where g l = (if l \<noteq> Num 0 then fdiv g l else Num 0)"

subsection \<open>\<open>calculate_precise_rsi\<close>\<close>

definition RSI_THRESHOLD :: real where
  "RSI_THRESHOLD = 30"

definition RSI_PERIOD :: int where
  "RSI_PERIOD = 14"

definition gain_of :: "real list \<Rightarrow> npfloat list" where
  "gain_of prices = map (clip_lower 0) (diff prices)"

definition loss_of :: "real list \<Rightarrow> npfloat list" where
  "loss_of prices = map (\<lambda>d. fneg (clip_upper 0 d)) (diff prices)"

text \<open>The right-hand side of the two assignments under the comment \<open>EMA formula\<close>.\<close>

definition ema_step :: "real \<Rightarrow> npfloat \<Rightarrow> npfloat \<Rightarrow> npfloat" where
  "ema_step alpha current previous =
     fadd (fmul current (Num alpha)) (fmul previous (Num (1 - alpha)))"

text \<open>
  The \<open>for\<close> loop over \<open>range(period, len(prices))\<close>. The lists \<open>gains\<close> and
  \<open>losses\<close> start with one entry and only grow, so \<open>gains[-1]\<close> is their last entry.
\<close>

fun ema_loop ::
  "npfloat list \<Rightarrow> npfloat list \<Rightarrow> real \<Rightarrow> int list \<Rightarrow> npfloat list \<times> npfloat list
     \<Rightarrow> exn + npfloat list \<times> npfloat list" where
  "ema_loop gain loss alpha [] (gains, losses) = Inr (gains, losses)"
| "ema_loop gain loss alpha (i # is) (gains, losses) =
     (case iloc gain i of
        Inl e \<Rightarrow> Inl e
      | Inr current_gain \<Rightarrow>
          (case iloc loss i of
             Inl e \<Rightarrow> Inl e
           | Inr current_loss \<Rightarrow>
               (let avg_gain = ema_step alpha current_gain (last gains);
                    avg_loss = ema_step alpha current_loss (last losses)
                in ema_loop gain loss alpha is (gains @ [avg_gain], losses @ [avg_loss]))))"

text \<open>
  Lines 80 to 106: the two lists of averages. \<open>alpha = 1 / period\<close> is a division of
  Python numbers and raises ZeroDivisionError for a zero period.
\<close>

definition ema_lists :: "real list \<Rightarrow> int \<Rightarrow> exn + npfloat list \<times> npfloat list" where
  "ema_lists prices period =
     (let gain = gain_of prices;
          loss = loss_of prices;
          avg_gain = mean (slice_to period gain);
          avg_loss = mean (slice_to period loss)
      in if period = 0 then Inl ZeroDivisionError
         else ema_loop gain loss (1 / real_of_int period)
                [period .. int (length prices) - 1] ([avg_gain], [avg_loss]))"

text \<open>Lines 108 to 116: the element-wise quotient and the value returned, \<open>rsi[-1]\<close>.\<close>

definition rsi_of :: "npfloat \<Rightarrow> npfloat" where
  "rsi_of rs = fsub (Num 100) (fdiv (Num 100) (fadd (Num 1) rs))"

definition calculate_precise_rsi :: "real list \<Rightarrow> int \<Rightarrow> exn + npfloat" where
  "calculate_precise_rsi prices period =
     (case ema_lists prices period of
        Inl e \<Rightarrow> Inl e
      | Inr (gains, losses) \<Rightarrow>
          (let rs = map (\<lambda>(g, l). np_divide_where g l) (zip gains losses);
               rsi = map rsi_of rs
           in Inr (last rsi)))"

subsection \<open>The algorithm in the words of the specification\<close>

text \<open>
  Section 4.1 of the specification describes the same computation over sequences of
  numbers. These definitions follow its words, step by step, and are what the code is
  compared with: the successive differences of consecutive closes, one element shorter
  than the series; their positive part and the absolute value of their negative part;
  the arithmetic mean of the first \<open>period\<close> values; and the recurrence
  \<open>avg = x/period + avg*(period-1)/period\<close>.
\<close>

definition spec_diffs :: "real list \<Rightarrow> real list" where
  "spec_diffs prices = map (\<lambda>(a, b). b - a) (zip prices (tl prices))"

definition spec_gain :: "real list \<Rightarrow> real list" where
  "spec_gain prices = map (max 0) (spec_diffs prices)"

definition spec_loss :: "real list \<Rightarrow> real list" where
  "spec_loss prices = map (\<lambda>d. \<bar>min d 0\<bar>) (spec_diffs prices)"

definition spec_seed :: "int \<Rightarrow> real list \<Rightarrow> real" where
  "spec_seed period xs = sum_list (take (nat period) xs) / real_of_int period"

definition wilder_step :: "int \<Rightarrow> npfloat \<Rightarrow> npfloat \<Rightarrow> npfloat" where
  "wilder_step period avg x =
     fadd (fdiv x (Num (real_of_int period)))
          (fdiv (fmul avg (Num (real_of_int period - 1))) (Num (real_of_int period)))"

text \<open>The averages that a run of the loop appends, given the last average before it.\<close>

fun ema_run :: "real \<Rightarrow> npfloat \<Rightarrow> npfloat list \<Rightarrow> npfloat list" where
  "ema_run alpha previous [] = []"
| "ema_run alpha previous (x # xs) =
     ema_step alpha x previous # ema_run alpha (ema_step alpha x previous) xs"

text \<open>A number that is defined and not negative.\<close>

fun is_nonneg :: "npfloat \<Rightarrow> bool" where
  "is_nonneg (Num x) = (0 \<le> x)"
| "is_nonneg NaN = False"

text \<open>
  The largest finite double, \<open>sys.float_info.max\<close>. A sum of the code that passes it
  becomes an infinity, and the quotient of two infinities is NaN; exact arithmetic stands
  for the code's only as long as the sums and averages stay below it.
\<close>

definition DBL_MAX :: real where
  "DBL_MAX = (2 - 1 / 2 ^ 52) * 2 ^ 1023"

text \<open>A number that is defined and lies between 0 and a bound.\<close>

fun in_range :: "real \<Rightarrow> npfloat \<Rightarrow> bool" where
  "in_range b (Num x) = (0 \<le> x \<and> x \<le> b)"
| "in_range b NaN = False"

subsection \<open>Strings\<close>

text \<open>
  A Python \<open>str\<close> is modelled as a list of characters, each a code point below 256.
  \<open>is_space\<close> holds of exactly the code points below 256 that \<open>str.isspace\<close>
  accepts, which are the ones \<open>str.strip()\<close> removes: 9 to 13, 28 to 32, 133 (U+0085)
  and 160 (U+00A0). \<open>upper\<close> is \<open>str.upper()\<close> on ASCII text, which is what Binance
  symbols are: it maps the letters \<open>a\<close> to \<open>z\<close> to \<open>A\<close> to \<open>Z\<close> and leaves
  every other character as it is. Beyond ASCII \<open>str.upper()\<close> does more (it maps the
  accented letters and turns U+00DF into two letters), so what is stated about \<open>upper\<close>
  is stated of ASCII strings.
\<close>

definition is_space :: "char \<Rightarrow> bool" where
  "is_space c = ((9 \<le> (of_char c :: nat) \<and> (of_char c :: nat) \<le> 13)
                 \<or> (28 \<le> (of_char c :: nat) \<and> (of_char c :: nat) \<le> 32)
                 \<or> (of_char c :: nat) = 133
                 \<or> (of_char c :: nat) = 160)"

definition is_ascii :: "char \<Rightarrow> bool" where
  "is_ascii c = ((of_char c :: nat) < 128)"

definition is_lower :: "char \<Rightarrow> bool" where
  "is_lower c = (97 \<le> (of_char c :: nat) \<and> (of_char c :: nat) \<le> 122)"

definition strip :: "string \<Rightarrow> string" where
  "strip s = rev (dropWhile is_space (rev (dropWhile is_space s)))"

definition upper :: "string \<Rightarrow> string" where
  "upper s = map (\<lambda>c. if is_lower c then char_of ((of_char c :: nat) - 32) else c) s"

definition endswith :: "string \<Rightarrow> string \<Rightarrow> bool" where
  "endswith s sfx = suffix sfx s"

text \<open>
  A file opened in text mode is read with universal newlines: \<open>\r\n\<close> and a lone
  \<open>\r\<close> arrive as \<open>\n\<close>. \<open>readlines\<close> cuts after every \<open>\n\<close> and keeps it.
\<close>

fun universal_newlines :: "string \<Rightarrow> string" where
  "universal_newlines [] = []"
| "universal_newlines [c] = [if c = CHR 0x0D then CHR 0x0A else c]"
| "universal_newlines (c # d # cs) =
     (if c = CHR 0x0D \<and> d = CHR 0x0A then CHR 0x0A # universal_newlines cs
      else if c = CHR 0x0D then CHR 0x0A # universal_newlines (d # cs)
      else c # universal_newlines (d # cs))"

fun split_lines :: "string \<Rightarrow> string \<Rightarrow> string list" where
  "split_lines cur [] = (if cur = [] then [] else [cur])"
| "split_lines cur (c # cs) =
     (if c = CHR 0x0A then (cur @ [c]) # split_lines [] cs else split_lines (cur @ [c]) cs)"

definition readlines :: "string \<Rightarrow> string list" where
  "readlines content = split_lines [] (universal_newlines content)"

subsection \<open>The remote API, the console and the cache file\<close>

text \<open>
  A call of \<open>requests.get\<close> either raises (the host cannot be reached) or returns a
  response: a status code and the decoded JSON payload. The payloads are taken as
  well formed: a list of symbol records for the listing, a list of candles for the
  klines (\<open>kline[4]\<close> is the close), a number for the price. The three endpoints are
  parameters of the model, and answer the same symbol in the same way each time.
\<close>

datatype 'a response = Unreachable | Response int 'a

record symbol_record =
  symbol :: string
  status :: string

record kline =
  open_time :: int
  open_price :: real
  high_price :: real
  low_price :: real
  close_price :: real

record remote =
  exchange_info :: "symbol_record list response"
  klines :: "string \<Rightarrow> kline list response"
  ticker_price :: "string \<Rightarrow> real response"

datatype endpoint = SYMBOLS_ENDPOINT | KLINES_ENDPOINT string | PRICE_ENDPOINT string

text \<open>
  The lines that \<open>print_flush\<close> writes, one constructor per message of the source, with
  the values that the message formats.
\<close>

datatype message =
    Cache_found
  | Fetching_pairs
  | Pairs_found nat
  | Failed_pairs
  | Failed_price string
  | Not_enough_data string
  | Failed_data string int
  | Match string npfloat real
  | Error_occurred string exn
  | Querying_single string
  | Querying_all

text \<open>What can be observed of a run: the requests sent and the lines printed, in order.\<close>

datatype event = Get endpoint | Print message

text \<open>
  The state that outlives a call: the content of \<open>COINS_FILE\<close> (\<open>None\<close> when the file
  does not exist) and the events so far.
\<close>

record world =
  coins_file :: "string option"
  events :: "event list"

definition emit :: "event list \<Rightarrow> world \<Rightarrow> world" where
  "emit es w = w\<lparr>events := events w @ es\<rparr>"

subsection \<open>\<open>get_usdt_pairs\<close>\<close>

definition get_usdt_pairs :: "remote \<Rightarrow> world \<Rightarrow> (exn + string list) \<times> world" where
  "get_usdt_pairs r w =
     (case coins_file w of
        Some content \<Rightarrow>
          (Inr (map strip (readlines content)), emit [Print Cache_found] w)
      | None \<Rightarrow>
          (case exchange_info r of
             Unreachable \<Rightarrow>
               (Inl ConnectionError, emit [Print Fetching_pairs, Get SYMBOLS_ENDPOINT] w)
           | Response status_code data \<Rightarrow>
               if status_code = 200 then
                 (let usdt_pairs =
                        map symbol (filter (\<lambda>s. endswith (symbol s) ''USDT''
                                                \<and> status s = ''TRADING'') data)
                  in (Inr usdt_pairs,
                      emit [Print Fetching_pairs, Get SYMBOLS_ENDPOINT,
                            Print (Pairs_found (length usdt_pairs))]
                        (w\<lparr>coins_file :=
                             Some (concat (map (\<lambda>pair. pair @ [CHR 0x0A]) usdt_pairs))\<rparr>)))
               else
                 (Inr [], emit [Print Fetching_pairs, Get SYMBOLS_ENDPOINT,
                                Print Failed_pairs] w)))"

subsection \<open>The functions that work on one symbol\<close>

text \<open>
  These touch nothing but the network and the console, and the pool runs them side by
  side; each returns its result together with the events it produces.
\<close>

definition get_current_price :: "remote \<Rightarrow> string \<Rightarrow> (exn + real option) \<times> event list" where
  "get_current_price r coin =
     (case ticker_price r coin of
        Unreachable \<Rightarrow> (Inl ConnectionError, [Get (PRICE_ENDPOINT coin)])
      | Response status_code price \<Rightarrow>
          if status_code = 200 then (Inr (Some price), [Get (PRICE_ENDPOINT coin)])
          else (Inr None, [Get (PRICE_ENDPOINT coin), Print (Failed_price coin)]))"

definition fetch_and_calculate_rsi ::
  "remote \<Rightarrow> string \<Rightarrow> (exn + npfloat option) \<times> event list" where
  "fetch_and_calculate_rsi r coin =
     (case klines r coin of
        Unreachable \<Rightarrow> (Inl ConnectionError, [Get (KLINES_ENDPOINT coin)])
      | Response status_code data \<Rightarrow>
          if status_code = 200 then
            (if data = [] \<or> int (length data) < RSI_PERIOD then
               (Inr None, [Get (KLINES_ENDPOINT coin), Print (Not_enough_data coin)])
             else
               (case calculate_precise_rsi (map close_price data) RSI_PERIOD of
                  Inl e \<Rightarrow> (Inl e, [Get (KLINES_ENDPOINT coin)])
                | Inr last_rsi \<Rightarrow> (Inr (Some last_rsi), [Get (KLINES_ENDPOINT coin)])))
          else
            (Inr None, [Get (KLINES_ENDPOINT coin), Print (Failed_data coin status_code)]))"

text \<open>A comparison with NaN is false.\<close>

fun below :: "npfloat \<Rightarrow> real \<Rightarrow> bool" where
  "below (Num x) t = (x < t)"
| "below NaN t = False"

text \<open>
  \<open>process_symbol\<close> catches every exception and prints it. The match line formats the
  price with \<open>:.4f\<close>, which raises TypeError when the price is \<open>None\<close>.
\<close>

definition process_symbol :: "remote \<Rightarrow> string \<Rightarrow> event list" where
  "process_symbol r coin =
     (case fetch_and_calculate_rsi r coin of
        (Inl e, es) \<Rightarrow> es @ [Print (Error_occurred coin e)]
      | (Inr None, es) \<Rightarrow> es
      | (Inr (Some last_rsi), es) \<Rightarrow>
          if below last_rsi RSI_THRESHOLD then
            (case get_current_price r coin of
               (Inl e, es') \<Rightarrow> es @ es' @ [Print (Error_occurred coin e)]
             | (Inr None, es') \<Rightarrow> es @ es' @ [Print (Error_occurred coin TypeError)]
             | (Inr (Some current_price), es') \<Rightarrow>
                 es @ es' @ [Print (Match coin last_rsi current_price)])
          else es)"

subsection \<open>\<open>find_low_rsi_coins\<close>\<close>

text \<open>
  \<open>executor.map(process_symbol, symbols)\<close> runs the symbols on up to \<open>MAX_WORKERS\<close>
  threads. Each thread produces its own events in order, and the lock of \<open>print_flush\<close>
  keeps each line whole, so what a run shows is an interleaving of the event lists of
  the symbols. The model admits every interleaving; the bound of 40 threads only excludes
  some of them.
\<close>

fun interleavings :: "'a list list \<Rightarrow> 'a list set" where
  "interleavings [] = {[]}"
| "interleavings (t # ts) = (\<Union>u \<in> interleavings ts. shuffles t u)"

text \<open>The two branches of \<open>find_low_rsi_coins\<close>; each yields the set of possible outcomes.\<close>

definition query_single :: "remote \<Rightarrow> string \<Rightarrow> world \<Rightarrow> ((exn + unit) \<times> world) set" where
  "query_single r target_coin w =
     {(Inr (), emit (Print (Querying_single target_coin) # process_symbol r target_coin) w)}"

definition query_all :: "remote \<Rightarrow> world \<Rightarrow> ((exn + unit) \<times> world) set" where
  "query_all r w =
     (case get_usdt_pairs r (emit [Print Querying_all] w) of
        (Inl e, w') \<Rightarrow> {(Inl e, w')}
      | (Inr symbols, w') \<Rightarrow>
          (\<lambda>es. (Inr (), emit es w')) ` interleavings (map (process_symbol r) symbols))"

text \<open>
  \<open>os.getenv(name, default)\<close> is the value of the variable, or the default when it is
  not set; the environment enters the model as the value of \<open>SYMBOL\<close>, if any.
\<close>

definition getenv :: "string option \<Rightarrow> string \<Rightarrow> string" where
  "getenv var fallback = (case var of None \<Rightarrow> fallback | Some v \<Rightarrow> v)"

text \<open>An uncaught exception (\<open>Inl\<close>) ends the process with a traceback.\<close>

definition find_low_rsi_coins ::
  "remote \<Rightarrow> string option \<Rightarrow> world \<Rightarrow> ((exn + unit) \<times> world) set" where
  "find_low_rsi_coins r env_symbol w =
     (let target_coin = upper (strip (getenv env_symbol []))
      in if target_coin \<noteq> [] then query_single r target_coin w else query_all r w)"

text \<open>
  For the examples: a candle whose prices all equal its close, a remote API that cannot
  be reached, and the state of a first run (no cache file, nothing printed yet).
\<close>

definition offline :: remote where
  "offline = \<lparr>exchange_info = Unreachable, klines = (\<lambda>coin. Unreachable),
               ticker_price = (\<lambda>coin. Unreachable)\<rparr>"

definition first_run :: world where
  "first_run = \<lparr>coins_file = None, events = []\<rparr>"

definition candle :: "real \<Rightarrow> kline" where
  "candle c = \<lparr>open_time = 0, open_price = c, high_price = c, low_price = c, close_price = c\<rparr>"

section \<open>Properties\<close>

subsection \<open>The shape of the series and of the loop\<close>


lemma length_diff: "length (diff ps) = length ps"
  by (cases ps) simp_all

lemma diff_spec: "ps \<noteq> [] \<Longrightarrow> diff ps = NaN # map Num (spec_diffs ps)"
  by (cases ps) (auto simp: spec_diffs_def)

lemma gain_of_spec: "ps \<noteq> [] \<Longrightarrow> gain_of ps = NaN # map Num (spec_gain ps)"
  by (simp add: gain_of_def diff_spec spec_gain_def)

lemma loss_of_spec: "ps \<noteq> [] \<Longrightarrow> loss_of ps = NaN # map Num (spec_loss ps)"
  by (simp add: loss_of_def diff_spec spec_loss_def min_def)

lemma length_spec_diffs: "length (spec_diffs ps) = length ps - 1"
  by (simp add: spec_diffs_def)

lemma nums_map_Num: "nums (map Num xs) = xs"
  by (induction xs) simp_all

lemma upto_nth_drop:
  "map (\<lambda>i. xs ! nat i) [int k .. int (length xs) - 1] = drop k xs"
  by (rule nth_equalityI) (auto simp flip: of_nat_add)

lemma ema_loop_valid:
  assumes "\<forall>i \<in> set js. 0 \<le> i \<and> i < int (length gain)" and "length loss = length gain"
  shows "ema_loop gain loss a js (gains, losses) =
           Inr (gains @ ema_run a (last gains) (map (\<lambda>i. gain ! nat i) js),
                losses @ ema_run a (last losses) (map (\<lambda>i. loss ! nat i) js))"
  using assms
proof (induction js arbitrary: gains losses)
  case Nil
  then show ?case by simp
next
  case (Cons j js)
  then show ?case by (simp add: iloc_def Let_def)
qed

lemma ema_step_wilder:
  "period \<noteq> 0 \<Longrightarrow> ema_step (1 / real_of_int period) x avg = wilder_step period avg x"
  by (cases x; cases avg) (simp_all add: ema_step_def wilder_step_def field_simps)


lemma length_gain_of: "length (gain_of ps) = length ps"
  by (simp add: gain_of_def length_diff)

lemma length_loss_of: "length (loss_of ps) = length ps"
  by (simp add: loss_of_def length_diff)

lemma ema_lists_valid:
  assumes "1 \<le> period" and "period \<le> int (length prices)"
  shows "ema_lists prices period =
           Inr (mean (slice_to period (gain_of prices))
                  # ema_run (1 / real_of_int period) (mean (slice_to period (gain_of prices)))
                      (drop (nat period) (gain_of prices)),
                mean (slice_to period (loss_of prices))
                  # ema_run (1 / real_of_int period) (mean (slice_to period (loss_of prices)))
                      (drop (nat period) (loss_of prices)))"
proof -
  have idx: "\<forall>i \<in> set [period .. int (length prices) - 1]. 0 \<le> i \<and> i < int (length (gain_of prices))"
    using assms by (simp add: length_gain_of)
  have len: "length (loss_of prices) = length (gain_of prices)"
    by (simp add: length_gain_of length_loss_of)
  have p: "period = int (nat period)"
    using assms by simp
  have g: "map (\<lambda>i. gain_of prices ! nat i) [period .. int (length prices) - 1] = drop (nat period) (gain_of prices)"
    using upto_nth_drop [of "gain_of prices" "nat period"] p by (simp add: length_gain_of)
  have l: "map (\<lambda>i. loss_of prices ! nat i) [period .. int (length prices) - 1] = drop (nat period) (loss_of prices)"
    using upto_nth_drop [of "loss_of prices" "nat period"] p by (simp add: length_loss_of)
  show ?thesis
    using assms(1) by (simp add: ema_lists_def Let_def ema_loop_valid [OF idx len] g l)
qed


lemma ema_loop_shape:
  assumes "ema_loop gain loss a js (gains, losses) = Inr (gs, ls)"
    and "length gains = length losses" and "gains \<noteq> []"
  shows "length gs = length ls \<and> gs \<noteq> []"
  using assms
proof (induction js arbitrary: gains losses)
  case Nil
  then show ?case by simp
next
  case (Cons j js)
  then show ?case by (auto simp: Let_def split: sum.splits)
qed

lemma ema_lists_shape:
  assumes "ema_lists prices period = Inr (gs, ls)"
  shows "length gs = length ls \<and> gs \<noteq> []"
proof -
  from assms have "period \<noteq> 0"
    by (auto simp: ema_lists_def Let_def split: if_splits)
  with assms show ?thesis
    using ema_loop_shape [of "gain_of prices" "loss_of prices" "1 / real_of_int period"
        "[period .. int (length prices) - 1]" "[mean (slice_to period (gain_of prices))]"
        "[mean (slice_to period (loss_of prices))]" gs ls]
    by (simp add: ema_lists_def Let_def)
qed

lemma last_rsi:
  assumes "length gs = length ls" and "gs \<noteq> []"
  shows "last (map rsi_of (map (\<lambda>(g, l). np_divide_where g l) (zip gs ls)))
           = rsi_of (np_divide_where (last gs) (last ls))"
proof -
  from assms have "zip gs ls \<noteq> []" by (cases gs; cases ls) simp_all
  then show ?thesis
    using assms by (simp add: last_map last_zip)
qed

lemma calculate_precise_rsi_last:
  assumes "ema_lists prices period = Inr (gs, ls)"
  shows "calculate_precise_rsi prices period = Inr (rsi_of (np_divide_where (last gs) (last ls)))"
proof -
  from ema_lists_shape [OF assms] have "length gs = length ls" and "gs \<noteq> []"
    by simp_all
  from last_rsi [OF this] show ?thesis
    using assms by (simp add: calculate_precise_rsi_def Let_def del: map_map)
qed

lemma last_ema_run_foldl:
  "last (seed # ema_run a seed xs) = foldl (\<lambda>avg x. ema_step a x avg) seed xs"
  by (induction xs arbitrary: seed) simp_all

lemma nth_ema_run:
  "k < length xs \<Longrightarrow>
     (seed # ema_run a seed xs) ! Suc k = ema_step a (xs ! k) ((seed # ema_run a seed xs) ! k)"
proof (induction xs arbitrary: seed k)
  case Nil
  then show ?case by simp
next
  case (Cons x xs)
  then show ?case by (cases k) simp_all
qed

lemma length_ema_run: "length (ema_run a seed xs) = length xs"
  by (induction xs arbitrary: seed) simp_all

lemma ema_step_nonneg:
  assumes "0 \<le> a" and "a \<le> 1" and "is_nonneg x" and "is_nonneg avg"
  shows "is_nonneg (ema_step a x avg)"
  using assms by (cases x; cases avg) (simp_all add: ema_step_def)

lemma foldl_ema_nonneg:
  assumes "0 \<le> a" and "a \<le> 1" and "\<forall>x \<in> set xs. is_nonneg x" and "is_nonneg seed"
  shows "is_nonneg (foldl (\<lambda>avg x. ema_step a x avg) seed xs)"
  using assms by (induction xs arbitrary: seed) (simp_all add: ema_step_nonneg)

lemma ema_step_zero: "ema_step a (Num 0) (Num 0) = Num 0"
  by (simp add: ema_step_def)

lemma foldl_ema_zero:
  assumes "\<forall>x \<in> set xs. x = Num 0"
  shows "foldl (\<lambda>avg x. ema_step a x avg) (Num 0) xs = Num 0"
  using assms by (induction xs) (simp_all add: ema_step_zero)

lemma spec_gain_nonneg: "x \<in> set (spec_gain ps) \<Longrightarrow> 0 \<le> x"
  by (auto simp: spec_gain_def)

lemma spec_loss_nonneg: "x \<in> set (spec_loss ps) \<Longrightarrow> 0 \<le> x"
  by (auto simp: spec_loss_def)

lemma seed_mean:
  assumes "2 \<le> period" and "period \<le> int (length ps)"
    and "series = NaN # map Num xs" and "length xs = length ps - 1"
  shows "mean (slice_to period series)
           = Num (sum_list (take (nat period - 1) xs) / (real_of_int period - 1))"
proof -
  have "slice_to period series = NaN # map Num (take (nat period - 1) xs)"
    using assms by (simp add: slice_to_def take_Cons' take_map)
  moreover have "length (take (nat period - 1) xs) = nat period - 1"
    using assms by simp
  moreover have "real (nat period - 1) = real_of_int period - 1"
    using assms by (simp add: of_nat_diff)
  moreover have "take (nat period - 1) xs \<noteq> []"
    using assms by auto
  ultimately show ?thesis
    by (simp add: mean_def nums_map_Num)
qed


lemma rsi_real_bounds:
  assumes "0 \<le> (q::real)"
  shows "0 \<le> 100 - 100 / (1 + q) \<and> 100 - 100 / (1 + q) < 100"
proof -
  from assms have pos: "0 < 1 + q" by linarith
  then have "100 / (1 + q) \<le> 100"
    using assms by (simp add: pos_divide_le_eq)
  moreover from pos have "0 < 100 / (1 + q)" by simp
  ultimately show ?thesis by simp
qed

lemma rsi_bounds:
  assumes "is_nonneg g" and "is_nonneg l"
  shows "\<exists>r. rsi_of (np_divide_where g l) = Num r \<and> 0 \<le> r \<and> r < 100"
proof -
  from assms obtain G L where gl: "g = Num G" "l = Num L" "0 \<le> G" "0 \<le> L"
    by (cases g; cases l) simp_all
  show ?thesis
  proof (cases "L = 0")
    case True
    with gl show ?thesis by (simp add: np_divide_where_def rsi_of_def)
  next
    case False
    from gl have q: "0 \<le> G / L" by simp
    then have "1 + G / L \<noteq> 0" by linarith
    with gl False have "rsi_of (np_divide_where g l) = Num (100 - 100 / (1 + G / L))"
      by (simp add: np_divide_where_def rsi_of_def)
    with rsi_real_bounds [OF q] show ?thesis by blast
  qed
qed

lemma rsi_zero_loss: "rsi_of (np_divide_where g (Num 0)) = Num 0"
  by (simp add: np_divide_where_def rsi_of_def)

lemma drop_series_nonneg:
  assumes "series = NaN # map Num xs" and "\<forall>x \<in> set xs. 0 \<le> x" and "1 \<le> k"
  shows "\<forall>y \<in> set (drop k series). is_nonneg y"
proof -
  from assms(3) obtain j where "k = Suc j" by (cases k) simp_all
  with assms(1) have "drop k series = map Num (drop j xs)" by (simp add: drop_map)
  moreover have "set (drop j xs) \<subseteq> set xs" by (rule set_drop_subset)
  ultimately show ?thesis using assms(2) by auto
qed

lemma seed_nonneg:
  assumes "2 \<le> period" and "period \<le> int (length ps)"
    and "series = NaN # map Num xs" and "length xs = length ps - 1"
    and "\<forall>x \<in> set xs. 0 \<le> x"
  shows "is_nonneg (mean (slice_to period series))"
proof -
  have "set (take (nat period - 1) xs) \<subseteq> set xs" by (rule set_take_subset)
  with assms(5) have "0 \<le> sum_list (take (nat period - 1) xs)"
    by (intro sum_list_nonneg) auto
  with assms(1) show ?thesis
    by (simp add: seed_mean [OF assms(1-4)])
qed

lemma length_spec_gain: "length (spec_gain ps) = length ps - 1"
  by (simp add: spec_gain_def length_spec_diffs)

lemma length_spec_loss: "length (spec_loss ps) = length ps - 1"
  by (simp add: spec_loss_def length_spec_diffs)

lemma averages_nonneg:
  assumes "2 \<le> period" and "period \<le> int (length prices)"
  shows "\<exists>gs ls. ema_lists prices period = Inr (gs, ls)
           \<and> is_nonneg (last gs) \<and> is_nonneg (last ls)"
proof -
  let ?a = "1 / real_of_int period"
  from assms have ne: "prices \<noteq> []" by auto
  from assms have a: "0 \<le> ?a" "?a \<le> 1" by simp_all
  from assms have k: "1 \<le> nat period" by simp
  have g: "is_nonneg (foldl (\<lambda>avg x. ema_step ?a x avg) (mean (slice_to period (gain_of prices)))
             (drop (nat period) (gain_of prices)))"
    using a assms ne
    by (intro foldl_ema_nonneg drop_series_nonneg [OF gain_of_spec [OF ne] _ k]
          seed_nonneg [OF assms gain_of_spec [OF ne]])
       (auto simp: length_spec_gain dest: spec_gain_nonneg)
  have l: "is_nonneg (foldl (\<lambda>avg x. ema_step ?a x avg) (mean (slice_to period (loss_of prices)))
             (drop (nat period) (loss_of prices)))"
    using a assms ne
    by (intro foldl_ema_nonneg drop_series_nonneg [OF loss_of_spec [OF ne] _ k]
          seed_nonneg [OF assms loss_of_spec [OF ne]])
       (auto simp: length_spec_loss dest: spec_loss_nonneg)
  from assms have "1 \<le> period" by simp
  from ema_lists_valid [OF this assms(2)] g l show ?thesis
    by (simp add: last_ema_run_foldl del: last.simps)
qed

lemma sorted_zip_tl:
  assumes "sorted ps" and "(a, b) \<in> set (zip ps (tl ps))"
  shows "a \<le> b"
proof -
  from assms(2) obtain n where n: "ps ! n = a" "tl ps ! n = b" "n < length ps" "n < length (tl ps)"
    by (auto simp: in_set_zip)
  then have "b = ps ! Suc n" by (simp add: nth_tl)
  moreover from n have "Suc n < length ps" by simp
  ultimately show ?thesis
    using assms(1) n(1) by (auto simp: sorted_iff_nth_mono)
qed

lemma sorted_spec_loss:
  assumes "sorted ps" and "x \<in> set (spec_loss ps)"
  shows "x = 0"
  using assms by (auto simp: spec_loss_def spec_diffs_def dest: sorted_zip_tl)

lemma sum_list_zeros: "\<forall>x \<in> set xs. x = (0::real) \<Longrightarrow> sum_list xs = 0"
  by (induction xs) simp_all

lemma zero_loss_average:
  assumes "2 \<le> period" and "period \<le> int (length prices)" and "sorted prices"
    and "ema_lists prices period = Inr (gs, ls)"
  shows "last ls = Num 0"
proof -
  let ?a = "1 / real_of_int period"
  from assms have ne: "prices \<noteq> []" by auto
  have z: "\<forall>x \<in> set (spec_loss prices). x = 0"
    using sorted_spec_loss [OF assms(3)] by blast
  then have "sum_list (take (nat period - 1) (spec_loss prices)) = 0"
    by (intro sum_list_zeros) (auto dest: in_set_takeD)
  then have seed: "mean (slice_to period (loss_of prices)) = Num 0"
    using seed_mean [OF assms(1,2) loss_of_spec [OF ne] length_spec_loss] by simp
  from assms(1) obtain j where j: "nat period = Suc j" by (cases "nat period") simp_all
  have "drop (nat period) (loss_of prices) = map Num (drop j (spec_loss prices))"
    by (simp add: loss_of_spec [OF ne] j drop_map)
  with z have tail: "\<forall>y \<in> set (drop (nat period) (loss_of prices)). y = Num 0"
    by (auto dest: in_set_dropD)
  from assms(1) have "1 \<le> period" by simp
  from ema_lists_valid [OF this assms(2)] assms(4)
  have "last ls = foldl (\<lambda>avg x. ema_step ?a x avg) (mean (slice_to period (loss_of prices)))
                    (drop (nat period) (loss_of prices))"
    using last_ema_run_foldl [of "mean (slice_to period (loss_of prices))" ?a
        "drop (nat period) (loss_of prices)"]
    by simp
  with seed foldl_ema_zero [OF tail] show ?thesis by simp
qed

lemma spec_seed_shift:
  "2 \<le> period \<Longrightarrow>
     spec_seed (period - 1) xs = sum_list (take (nat period - 1) xs) / (real_of_int period - 1)"
  by (simp add: spec_seed_def nat_diff_distrib)

lemmas rsi_eval = calculate_precise_rsi_def ema_lists_def Let_def gain_of_def loss_of_def
  mean_def slice_to_def iloc_def ema_step_def np_divide_where_def rsi_of_def

subsection \<open>The guard of the division\<close>

text \<open>
  Claim C5. In the relative strength \<open>rs = avgGain / avgLoss\<close>, whenever the last
  average loss is zero, \<open>rs\<close> is defined as 0: the division is not carried out at that
  position, nothing is raised, and the value returned is the finite number
  \<open>100 - 100/(1+0) = 0\<close>, not a NaN or an infinity.
\<close>

theorem division_by_zero_guard:
  assumes "ema_lists prices period = Inr (gains, losses)" and "last losses = Num 0"
  shows "np_divide_where (last gains) (last losses) = Num 0
         \<and> calculate_precise_rsi prices period = Inr (Num 0)"
  using calculate_precise_rsi_last [OF assms(1)] assms(2)
  by (simp add: rsi_zero_loss) (simp add: np_divide_where_def)

theorem division_by_zero_guard_witness:
  "ema_lists [1, 2, 3] 2 = Inr ([Num 1, Num 1], [Num 0, Num 0])
   \<and> last [Num 0, Num 0] = Num 0
   \<and> np_divide_where (last [Num 1, Num 1]) (last [Num 0, Num 0]) = Num 0
   \<and> calculate_precise_rsi [1, 2, 3] 2 = Inr (Num 0)"
proof -
  have e: "ema_lists [1, 2, 3] 2 = Inr ([Num 1, Num 1], [Num 0, Num 0])"
    by (simp add: ema_lists_def Let_def gain_of_def loss_of_def mean_def slice_to_def
        iloc_def ema_step_def)
  have l: "last [Num 0, Num 0] = Num 0"
    by simp
  from division_by_zero_guard [OF e l] e l show ?thesis
    by simp
qed

subsection \<open>The seed of the averages\<close>

text \<open>
  Claim C2, as amended. For a period of at least 2 and a price series of at least
  \<open>period\<close> closes, the gain and loss series have the length of the input: an undefined
  first entry (NaN), followed by the positive part and the absolute negative part of the
  successive differences of consecutive closes. The averages are seeded with the mean of
  the defined entries among the first \<open>period\<close> entries of those series, which is the
  arithmetic mean of the first \<open>period - 1\<close> gains and losses.
\<close>

theorem seeding_of_the_averages:
  assumes "2 \<le> period" and "period \<le> int (length prices)"
  shows "gain_of prices = NaN # map Num (spec_gain prices)
         \<and> loss_of prices = NaN # map Num (spec_loss prices)
         \<and> length (gain_of prices) = length prices
         \<and> length (loss_of prices) = length prices
         \<and> (\<exists>gains losses. ema_lists prices period = Inr (gains, losses)
               \<and> hd gains = Num (spec_seed (period - 1) (spec_gain prices))
               \<and> hd losses = Num (spec_seed (period - 1) (spec_loss prices)))"
proof -
  from assms have ne: "prices \<noteq> []" by auto
  from assms(1) have p: "1 \<le> period" by simp
  have g: "mean (slice_to period (gain_of prices)) = Num (spec_seed (period - 1) (spec_gain prices))"
    using seed_mean [OF assms gain_of_spec [OF ne] length_spec_gain]
    by (simp add: spec_seed_shift [OF assms(1)])
  have l: "mean (slice_to period (loss_of prices)) = Num (spec_seed (period - 1) (spec_loss prices))"
    using seed_mean [OF assms loss_of_spec [OF ne] length_spec_loss]
    by (simp add: spec_seed_shift [OF assms(1)])
  have "\<exists>gains losses. ema_lists prices period = Inr (gains, losses)
          \<and> hd gains = Num (spec_seed (period - 1) (spec_gain prices))
          \<and> hd losses = Num (spec_seed (period - 1) (spec_loss prices))"
    using ema_lists_valid [OF p assms(2)] g l by simp
  with gain_of_spec [OF ne] loss_of_spec [OF ne] length_gain_of [of prices]
    length_loss_of [of prices]
  show ?thesis by blast
qed

theorem seeding_of_the_averages_witness:
  "gain_of [0, 2, 2] = NaN # map Num (spec_gain [0, 2, 2])
   \<and> loss_of [0, 2, 2] = NaN # map Num (spec_loss [0, 2, 2])
   \<and> length (gain_of [0, 2, 2]) = length [0, 2, 2 :: real]
   \<and> length (loss_of [0, 2, 2]) = length [0, 2, 2 :: real]
   \<and> (\<exists>gains losses. ema_lists [0, 2, 2] 2 = Inr (gains, losses)
         \<and> hd gains = Num (spec_seed (2 - 1) (spec_gain [0, 2, 2]))
         \<and> hd losses = Num (spec_seed (2 - 1) (spec_loss [0, 2, 2])))"
proof -
  have h1: "(2::int) \<le> 2"
    by simp
  have h2: "(2::int) \<le> int (length [0, 2, 2 :: real])"
    by simp
  show ?thesis
    by (rule seeding_of_the_averages [OF h1 h2])
qed

text \<open>
  Fifteen closes, the first step a rise of 14 and none after, with the program's period:
  the gain series of the code has 15 entries, not 14, and the seed is \<open>14/13\<close>, the mean
  of 13 differences, where the mean of the first 14 differences is 1.
\<close>

theorem seeding_counterexample:
  "length (gain_of [0, 14, 14, 14, 14, 14, 14, 14, 14, 14, 14, 14, 14, 14, 14]) = 15
   \<and> length (gain_of [0, 14, 14, 14, 14, 14, 14, 14, 14, 14, 14, 14, 14, 14, 14]) \<noteq> length [0 :: real, 14, 14, 14, 14, 14, 14, 14, 14, 14, 14, 14, 14, 14, 14] - 1
   \<and> mean (slice_to RSI_PERIOD (gain_of [0, 14, 14, 14, 14, 14, 14, 14, 14, 14, 14, 14, 14, 14, 14])) = Num (14 / 13)
   \<and> spec_seed RSI_PERIOD (spec_gain [0, 14, 14, 14, 14, 14, 14, 14, 14, 14, 14, 14, 14, 14, 14]) = 1
   \<and> mean (slice_to RSI_PERIOD (gain_of [0, 14, 14, 14, 14, 14, 14, 14, 14, 14, 14, 14, 14, 14, 14]))
       \<noteq> Num (spec_seed RSI_PERIOD (spec_gain [0, 14, 14, 14, 14, 14, 14, 14, 14, 14, 14, 14, 14, 14, 14]))
   \<and> (\<exists>losses. ema_lists [0, 14, 14, 14, 14, 14, 14, 14, 14, 14, 14, 14, 14, 14, 14] RSI_PERIOD = Inr ([Num (14 / 13), Num 1], losses))"
  by (simp add: RSI_PERIOD_def rsi_eval spec_gain_def spec_diffs_def spec_seed_def)

subsection \<open>The smoothing recurrence\<close>

text \<open>
  Claim C3. For a period of at least 1 and a price series of at least \<open>period\<close> closes,
  the loop appends one average per step \<open>i\<close> from \<open>period\<close> to the end of the gain and
  loss series, each computed from the one before it by
  \<open>avg = x[i]/period + avg*(period-1)/period\<close>, for the gains and the losses alike; the
  last averages are a left fold of that step over the series from position \<open>period\<close>, and
  they are the ones the value returned is computed from. The step is the exponential
  moving average of the code with \<open>alpha = 1/period\<close>.
\<close>

theorem smoothing_recurrence:
  assumes "1 \<le> period" and "period \<le> int (length prices)"
  shows "\<exists>gains losses. ema_lists prices period = Inr (gains, losses)
           \<and> length gains = Suc (length prices - nat period)
           \<and> length losses = Suc (length prices - nat period)
           \<and> (\<forall>i. nat period \<le> i \<and> i < length prices \<longrightarrow>
                 gains ! Suc (i - nat period)
                   = wilder_step period (gains ! (i - nat period)) (gain_of prices ! i)
                 \<and> losses ! Suc (i - nat period)
                   = wilder_step period (losses ! (i - nat period)) (loss_of prices ! i))
           \<and> last gains = foldl (wilder_step period) (hd gains) (drop (nat period) (gain_of prices))
           \<and> last losses = foldl (wilder_step period) (hd losses) (drop (nat period) (loss_of prices))
           \<and> calculate_precise_rsi prices period
               = Inr (rsi_of (np_divide_where (last gains) (last losses)))
           \<and> (\<forall>avg x. wilder_step period avg x = ema_step (1 / real_of_int period) x avg)"
proof -
  let ?a = "1 / real_of_int period"
  let ?g = "gain_of prices" and ?l = "loss_of prices"
  let ?sg = "mean (slice_to period ?g)" and ?sl = "mean (slice_to period ?l)"
  let ?gains = "?sg # ema_run ?a ?sg (drop (nat period) ?g)"
  let ?losses = "?sl # ema_run ?a ?sl (drop (nat period) ?l)"
  from assms(1) have nz: "period \<noteq> 0" by simp
  have w: "wilder_step period avg x = ema_step ?a x avg" for avg x
    using ema_step_wilder [OF nz] by simp
  have wf: "wilder_step period = (\<lambda>avg x. ema_step ?a x avg)"
    by (intro ext) (rule w)
  have e: "ema_lists prices period = Inr (?gains, ?losses)"
    by (rule ema_lists_valid [OF assms])
  have step: "?gains ! Suc (i - nat period) = wilder_step period (?gains ! (i - nat period)) (?g ! i)
            \<and> ?losses ! Suc (i - nat period) = wilder_step period (?losses ! (i - nat period)) (?l ! i)"
    if "nat period \<le> i" and "i < length prices" for i
  proof -
    from that have k: "i - nat period < length (drop (nat period) ?g)"
      "i - nat period < length (drop (nat period) ?l)"
      by (simp_all add: length_gain_of length_loss_of)
    from that have "drop (nat period) ?g ! (i - nat period) = ?g ! i"
      "drop (nat period) ?l ! (i - nat period) = ?l ! i"
      by (simp_all add: length_gain_of length_loss_of)
    with nth_ema_run [OF k(1), of ?sg ?a] nth_ema_run [OF k(2), of ?sl ?a] show ?thesis
      by (simp add: w)
  qed
  have "length ?gains = Suc (length prices - nat period)"
    "length ?losses = Suc (length prices - nat period)"
    by (simp_all add: length_ema_run length_gain_of length_loss_of)
  moreover have "last ?gains = foldl (wilder_step period) (hd ?gains) (drop (nat period) ?g)"
    "last ?losses = foldl (wilder_step period) (hd ?losses) (drop (nat period) ?l)"
    using last_ema_run_foldl [of ?sg ?a] last_ema_run_foldl [of ?sl ?a]
    by (simp_all add: wf del: last.simps)
  moreover note calculate_precise_rsi_last [OF e] step w e
  ultimately show ?thesis
    by (intro exI [of _ ?gains] exI [of _ ?losses] conjI allI impI) blast+
qed

theorem smoothing_recurrence_witness:
  "(1::int) \<le> 2 \<and> (2::int) \<le> int (length [3, 2, 1, 2, 5 :: real])
   \<and> (\<exists>gains losses. ema_lists [3, 2, 1, 2, 5] 2 = Inr (gains, losses)
         \<and> length gains = Suc (length [3, 2, 1, 2, 5 :: real] - nat 2)
         \<and> length losses = Suc (length [3, 2, 1, 2, 5 :: real] - nat 2)
         \<and> (\<forall>i. nat 2 \<le> i \<and> i < length [3, 2, 1, 2, 5 :: real] \<longrightarrow>
               gains ! Suc (i - nat 2)
                 = wilder_step 2 (gains ! (i - nat 2)) (gain_of [3, 2, 1, 2, 5] ! i)
               \<and> losses ! Suc (i - nat 2)
                 = wilder_step 2 (losses ! (i - nat 2)) (loss_of [3, 2, 1, 2, 5] ! i))
         \<and> last gains = foldl (wilder_step 2) (hd gains) (drop (nat 2) (gain_of [3, 2, 1, 2, 5]))
         \<and> last losses = foldl (wilder_step 2) (hd losses) (drop (nat 2) (loss_of [3, 2, 1, 2, 5]))
         \<and> calculate_precise_rsi [3, 2, 1, 2, 5] 2
             = Inr (rsi_of (np_divide_where (last gains) (last losses)))
         \<and> (\<forall>avg x. wilder_step 2 avg x = ema_step (1 / real_of_int 2) x avg))"
proof -
  have h1: "(1::int) \<le> 2"
    by simp
  have h2: "(2::int) \<le> int (length [3, 2, 1, 2, 5 :: real])"
    by simp
  from smoothing_recurrence [OF h1 h2] h1 h2 show ?thesis
    by blast
qed

subsection \<open>Strings and the lines of the cache file\<close>

lemma dropWhile_Nil_iff: "dropWhile P xs = [] \<longleftrightarrow> (\<forall>x \<in> set xs. P x)"
  by (induction xs) simp_all

lemma strip_Nil_iff: "strip s = [] \<longleftrightarrow> (\<forall>c \<in> set s. is_space c)"
proof
  assume "strip s = []"
  then have all: "\<forall>c \<in> set (dropWhile is_space s). is_space c"
    by (simp add: strip_def dropWhile_Nil_iff)
  have "dropWhile is_space s = []"
  proof (rule ccontr)
    assume ne: "dropWhile is_space s \<noteq> []"
    then have "\<not> is_space (hd (dropWhile is_space s))"
      by (rule hd_dropWhile)
    moreover from ne have "hd (dropWhile is_space s) \<in> set (dropWhile is_space s)"
      by simp
    ultimately show False using all by blast
  qed
  then show "\<forall>c \<in> set s. is_space c"
    by (simp add: dropWhile_Nil_iff)
next
  assume "\<forall>c \<in> set s. is_space c"
  then show "strip s = []"
    by (auto simp: strip_def dest: set_dropWhileD)
qed

lemma upper_Nil_iff: "upper s = [] \<longleftrightarrow> s = []"
  by (simp add: upper_def)

lemma length_upper: "length (upper s) = length s"
  by (simp add: upper_def)

lemma strip_last: "strip s \<noteq> [] \<Longrightarrow> \<not> is_space (last (strip s))"
proof -
  assume ne: "strip s \<noteq> []"
  let ?t = "dropWhile is_space (rev (dropWhile is_space s))"
  from ne have t: "?t \<noteq> []" by (simp add: strip_def)
  then have "\<not> is_space (hd ?t)" by (rule hd_dropWhile)
  moreover from t have "last (strip s) = hd ?t" by (simp add: strip_def last_rev)
  ultimately show ?thesis by simp
qed

lemma last_dropWhile_keep: "dropWhile P xs \<noteq> [] \<Longrightarrow> last (dropWhile P xs) = last xs"
  by (induction xs) (auto split: if_splits)

lemma strip_hd: "strip s \<noteq> [] \<Longrightarrow> \<not> is_space (hd (strip s))"
proof -
  assume ne: "strip s \<noteq> []"
  let ?u = "dropWhile is_space s"
  let ?t = "dropWhile is_space (rev ?u)"
  from ne have t: "?t \<noteq> []" by (simp add: strip_def)
  then have u: "?u \<noteq> []" by (cases ?u) simp_all
  from t have "hd (strip s) = last ?t" by (simp add: strip_def hd_rev)
  also from t have "\<dots> = last (rev ?u)" by (rule last_dropWhile_keep)
  also from u have "\<dots> = hd ?u" by (simp add: last_rev)
  finally show ?thesis using hd_dropWhile [OF u] by simp
qed

lemma upper_char_not_lower:
  "\<not> is_lower (if is_lower c then char_of ((of_char c :: nat) - 32) else c)"
  by (auto simp: is_lower_def)

lemma upper_no_lower: "c \<in> set (upper s) \<Longrightarrow> \<not> is_lower c"
proof -
  assume "c \<in> set (upper s)"
  then have "c \<in> (\<lambda>d. if is_lower d then char_of ((of_char d :: nat) - 32) else d) ` set s"
    by (simp add: upper_def)
  then obtain d where d: "c = (if is_lower d then char_of ((of_char d :: nat) - 32) else d)"
    by blast
  show ?thesis
    unfolding d by (rule upper_char_not_lower)
qed

lemma upper_keeps_others: "i < length s \<Longrightarrow> \<not> is_lower (s ! i) \<Longrightarrow> upper s ! i = s ! i"
  by (simp add: upper_def)

lemma is_space_LF: "is_space (CHR 0x0A)"
  by (simp add: is_space_def)

lemma universal_newlines_id: "CHR 0x0D \<notin> set s \<Longrightarrow> universal_newlines s = s"
  by (induction s rule: universal_newlines.induct) auto

lemma split_lines_line:
  "CHR 0x0A \<notin> set p \<Longrightarrow>
     split_lines cur (p @ CHR 0x0A # rest) = (cur @ p @ [CHR 0x0A]) # split_lines [] rest"
  by (induction p arbitrary: cur) auto

lemma split_lines_written:
  "\<forall>p \<in> set pairs. CHR 0x0A \<notin> set p \<Longrightarrow>
     split_lines [] (concat (map (\<lambda>pair. pair @ [CHR 0x0A]) pairs))
       = map (\<lambda>pair. pair @ [CHR 0x0A]) pairs"
proof (induction pairs)
  case Nil
  then show ?case by simp
next
  case (Cons p pairs)
  then show ?case
    using split_lines_line [of p "[]" "concat (map (\<lambda>pair. pair @ [CHR 0x0A]) pairs)"]
    by simp
qed

lemma dropWhile_none: "\<forall>x \<in> set xs. \<not> P x \<Longrightarrow> dropWhile P xs = xs"
  by (cases xs) simp_all

lemma strip_line:
  assumes "\<forall>c \<in> set p. \<not> is_space c"
  shows "strip (p @ [CHR 0x0A]) = p"
proof (cases p)
  case Nil
  then show ?thesis by (simp add: strip_def is_space_LF)
next
  case (Cons c cs)
  with assms have "dropWhile is_space (p @ [CHR 0x0A]) = p @ [CHR 0x0A]"
    by simp
  moreover from assms have "dropWhile is_space (rev p) = rev p"
    by (intro dropWhile_none) simp
  ultimately show ?thesis
    by (simp add: strip_def is_space_LF)
qed

lemma is_space_CR: "is_space (CHR 0x0D)"
  by (simp add: is_space_def)

lemma readlines_written:
  assumes "\<forall>p \<in> set pairs. \<forall>c \<in> set p. \<not> is_space c"
  shows "map strip (readlines (concat (map (\<lambda>pair. pair @ [CHR 0x0A]) pairs))) = pairs"
proof -
  let ?content = "concat (map (\<lambda>pair. pair @ [CHR 0x0A]) pairs)"
  from assms have nl: "\<forall>p \<in> set pairs. CHR 0x0A \<notin> set p"
    using is_space_LF by blast
  from assms have "\<forall>p \<in> set pairs. CHR 0x0D \<notin> set p"
    using is_space_CR by blast
  then have "CHR 0x0D \<notin> set ?content"
    by auto
  then have "readlines ?content = map (\<lambda>pair. pair @ [CHR 0x0A]) pairs"
    using split_lines_written [OF nl] by (simp add: readlines_def universal_newlines_id)
  moreover have "map strip (map (\<lambda>pair. pair @ [CHR 0x0A]) pairs) = pairs"
    using assms by (induction pairs) (simp_all add: strip_line)
  ultimately show ?thesis by simp
qed

subsection \<open>The cache of the universe\<close>

text \<open>
  Claim C8. Whenever the cache file exists, \<open>get_usdt_pairs\<close> returns the symbols on its
  lines (each line without its surrounding whitespace and line end), whatever the remote
  API would answer: the only event it adds is the line that announces the cache, no
  request to the listing endpoint is sent, and the file is left as it is. For a file as
  the program writes it, one symbol per line, the symbols come back verbatim.
\<close>

theorem cache_short_circuit:
  assumes "coins_file w = Some content"
  shows "get_usdt_pairs r w = (Inr (map strip (readlines content)), emit [Print Cache_found] w)
         \<and> events (snd (get_usdt_pairs r w)) = events w @ [Print Cache_found]
         \<and> Get SYMBOLS_ENDPOINT
               \<notin> set (drop (length (events w)) (events (snd (get_usdt_pairs r w))))
         \<and> coins_file (snd (get_usdt_pairs r w)) = Some content
         \<and> (content = concat (map (\<lambda>pair. pair @ [CHR 0x0A]) pairs)
              \<and> (\<forall>p \<in> set pairs. \<forall>c \<in> set p. \<not> is_space c)
              \<longrightarrow> fst (get_usdt_pairs r w) = Inr pairs)"
proof -
  have g: "get_usdt_pairs r w = (Inr (map strip (readlines content)), emit [Print Cache_found] w)"
    using assms by (simp add: get_usdt_pairs_def)
  have e: "events (snd (get_usdt_pairs r w)) = events w @ [Print Cache_found]"
    by (simp add: g emit_def)
  have f: "coins_file (snd (get_usdt_pairs r w)) = Some content"
    using assms by (simp add: g emit_def)
  have v: "content = concat (map (\<lambda>pair. pair @ [CHR 0x0A]) pairs)
              \<and> (\<forall>p \<in> set pairs. \<forall>c \<in> set p. \<not> is_space c)
              \<longrightarrow> fst (get_usdt_pairs r w) = Inr pairs"
  proof
    assume h: "content = concat (map (\<lambda>pair. pair @ [CHR 0x0A]) pairs)
              \<and> (\<forall>p \<in> set pairs. \<forall>c \<in> set p. \<not> is_space c)"
    then have "map strip (readlines content) = pairs"
      using readlines_written [of pairs] by blast
    then show "fst (get_usdt_pairs r w) = Inr pairs"
      by (simp only: g fst_conv)
  qed
  have n: "Get SYMBOLS_ENDPOINT
             \<notin> set (drop (length (events w)) (events (snd (get_usdt_pairs r w))))"
    by (simp add: e)
  from g e n f v show ?thesis
    by blast
qed

theorem cache_short_circuit_witness:
  "coins_file \<lparr>coins_file = Some ''BTCUSDT\<newline>ETHUSDT\<newline>'', events = []\<rparr>
     = Some ''BTCUSDT\<newline>ETHUSDT\<newline>''
   \<and> ''BTCUSDT\<newline>ETHUSDT\<newline>''
       = concat (map (\<lambda>pair. pair @ [CHR 0x0A]) [''BTCUSDT'', ''ETHUSDT''])
   \<and> fst (get_usdt_pairs offline
             \<lparr>coins_file = Some ''BTCUSDT\<newline>ETHUSDT\<newline>'', events = []\<rparr>)
       = Inr [''BTCUSDT'', ''ETHUSDT'']
   \<and> events (snd (get_usdt_pairs offline
                     \<lparr>coins_file = Some ''BTCUSDT\<newline>ETHUSDT\<newline>'', events = []\<rparr>))
       = [Print Cache_found]"
proof -
  let ?w = "\<lparr>coins_file = Some ''BTCUSDT\<newline>ETHUSDT\<newline>'', events = []\<rparr>"
  have h: "coins_file ?w = Some ''BTCUSDT\<newline>ETHUSDT\<newline>''"
    by simp
  have c: "''BTCUSDT\<newline>ETHUSDT\<newline>''
             = concat (map (\<lambda>pair. pair @ [CHR 0x0A]) [''BTCUSDT'', ''ETHUSDT''])"
    by simp
  have s: "\<forall>p \<in> set [''BTCUSDT'', ''ETHUSDT'']. \<forall>c \<in> set p. \<not> is_space c"
    by (simp add: is_space_def)
  note t = cache_short_circuit [OF h, of offline "[''BTCUSDT'', ''ETHUSDT'']"]
  from t c s have 1: "fst (get_usdt_pairs offline ?w) = Inr [''BTCUSDT'', ''ETHUSDT'']"
    by blast
  from t have "events (snd (get_usdt_pairs offline ?w)) = events ?w @ [Print Cache_found]"
    by blast
  then have 2: "events (snd (get_usdt_pairs offline ?w)) = [Print Cache_found]"
    by simp
  from h c 1 2 show ?thesis
    by blast
qed

subsection \<open>Requests, responses and the events of a run\<close>

lemma rsi_in_range:
  assumes "2 \<le> period" and "period \<le> int (length prices)"
  shows "\<exists>r. calculate_precise_rsi prices period = Inr (Num r) \<and> 0 \<le> r \<and> r < 100"
proof -
  from averages_nonneg [OF assms] obtain gs ls where
    e: "ema_lists prices period = Inr (gs, ls)" and n: "is_nonneg (last gs)" "is_nonneg (last ls)"
    by blast
  from rsi_bounds [OF n] calculate_precise_rsi_last [OF e] show ?thesis
    by auto
qed

lemma fetch_short:
  assumes "klines r coin = Response 200 data" and "int (length data) < RSI_PERIOD"
  shows "fetch_and_calculate_rsi r coin
           = (Inr None, [Get (KLINES_ENDPOINT coin), Print (Not_enough_data coin)])"
  using assms by (simp add: fetch_and_calculate_rsi_def)

lemma fetch_long:
  assumes "klines r coin = Response 200 data" and "RSI_PERIOD \<le> int (length data)"
  shows "\<exists>v. fetch_and_calculate_rsi r coin = (Inr (Some (Num v)), [Get (KLINES_ENDPOINT coin)])
             \<and> 0 \<le> v \<and> v < 100"
proof -
  have "2 \<le> RSI_PERIOD"
    by (simp add: RSI_PERIOD_def)
  moreover from assms(2) have "RSI_PERIOD \<le> int (length (map close_price data))"
    by simp
  ultimately obtain v where
    v: "calculate_precise_rsi (map close_price data) RSI_PERIOD = Inr (Num v)" "0 \<le> v" "v < 100"
    using rsi_in_range by blast
  from assms(2) have "data \<noteq> []"
    by (auto simp: RSI_PERIOD_def)
  with assms v show ?thesis
    by (simp add: fetch_and_calculate_rsi_def)
qed

lemmas io_eval = fetch_and_calculate_rsi_def get_current_price_def process_symbol_def
  get_usdt_pairs_def find_low_rsi_coins_def query_all_def query_single_def emit_def
  offline_def first_run_def candle_def getenv_def RSI_PERIOD_def RSI_THRESHOLD_def

lemma listing_status_failure:
  assumes "coins_file w = None" and "exchange_info r = Response status_code data"
    and "status_code \<noteq> 200"
  shows "get_usdt_pairs r w
           = (Inr [], emit [Print Fetching_pairs, Get SYMBOLS_ENDPOINT, Print Failed_pairs] w)"
    and "query_all r w
           = {(Inr (), emit [Print Querying_all, Print Fetching_pairs, Get SYMBOLS_ENDPOINT,
                             Print Failed_pairs] w)}"
  using assms by (simp_all add: get_usdt_pairs_def query_all_def emit_def)

lemma fetch_events_no_match:
  "Print (Match c x p) \<notin> set (snd (fetch_and_calculate_rsi r coin))"
  by (auto simp: fetch_and_calculate_rsi_def split: response.splits sum.splits)

lemma price_events_no_match:
  "Print (Match c x p) \<notin> set (snd (get_current_price r coin))"
  by (auto simp: get_current_price_def split: response.splits)

lemma no_match_without_price:
  assumes "\<forall>price. fst (get_current_price r coin) \<noteq> Inr (Some price)"
  shows "Print (Match c x p) \<notin> set (process_symbol r coin)"
proof -
  obtain res es where f: "fetch_and_calculate_rsi r coin = (res, es)"
    by (cases "fetch_and_calculate_rsi r coin")
  obtain res' es' where g: "get_current_price r coin = (res', es')"
    by (cases "get_current_price r coin")
  from fetch_events_no_match [of c x p r coin] f have 1: "Print (Match c x p) \<notin> set es"
    by simp
  from price_events_no_match [of c x p r coin] g have 2: "Print (Match c x p) \<notin> set es'"
    by simp
  from assms g have "\<forall>price. res' \<noteq> Inr (Some price)"
    by simp
  with 1 2 show ?thesis
    by (auto simp: process_symbol_def f g split: sum.splits option.splits)
qed

subsection \<open>Too few candles\<close>

text \<open>
  Claim C4, as amended. After a successful klines request, computing the indicator fails
  for lack of data (the diagnostic is printed, the symbol is skipped and no match line
  follows) exactly when the series has fewer than \<open>RSI_PERIOD\<close> closes, and it produces
  an indicator value, between 0 and 100, when the series has \<open>RSI_PERIOD\<close> closes or more.
\<close>

theorem insufficient_data_condition:
  assumes "klines r coin = Response 200 data"
  shows "(fetch_and_calculate_rsi r coin
            = (Inr None, [Get (KLINES_ENDPOINT coin), Print (Not_enough_data coin)]))
           = (int (length data) < RSI_PERIOD)
         \<and> (int (length data) < RSI_PERIOD \<longrightarrow>
               process_symbol r coin = [Get (KLINES_ENDPOINT coin), Print (Not_enough_data coin)])
         \<and> (RSI_PERIOD \<le> int (length data) \<longrightarrow>
               (\<exists>v. fetch_and_calculate_rsi r coin
                       = (Inr (Some (Num v)), [Get (KLINES_ENDPOINT coin)])
                     \<and> 0 \<le> v \<and> v \<le> 100))"
proof -
  have 1: "(fetch_and_calculate_rsi r coin
            = (Inr None, [Get (KLINES_ENDPOINT coin), Print (Not_enough_data coin)]))
           = (int (length data) < RSI_PERIOD)"
  proof (cases "int (length data) < RSI_PERIOD")
    case True
    with fetch_short [OF assms] show ?thesis by simp
  next
    case False
    then have "RSI_PERIOD \<le> int (length data)" by simp
    from fetch_long [OF assms this] False show ?thesis by auto
  qed
  have 2: "process_symbol r coin = [Get (KLINES_ENDPOINT coin), Print (Not_enough_data coin)]"
    if "int (length data) < RSI_PERIOD"
    using fetch_short [OF assms that] by (simp add: process_symbol_def)
  have 3: "\<exists>v. fetch_and_calculate_rsi r coin = (Inr (Some (Num v)), [Get (KLINES_ENDPOINT coin)])
             \<and> 0 \<le> v \<and> v \<le> 100"
    if "RSI_PERIOD \<le> int (length data)"
    using fetch_long [OF assms that] by force
  from 1 2 3 show ?thesis
    by blast
qed

theorem insufficient_data_witness:
  "fetch_and_calculate_rsi
     (offline\<lparr>klines := \<lambda>coin. Response 200 (map candle [13, 12, 11, 10, 9, 8, 7, 6, 5, 4, 3, 2, 1])\<rparr>)
     ''BTCUSDT''
     = (Inr None, [Get (KLINES_ENDPOINT ''BTCUSDT''), Print (Not_enough_data ''BTCUSDT'')])
   \<and> process_symbol
     (offline\<lparr>klines := \<lambda>coin. Response 200 (map candle [13, 12, 11, 10, 9, 8, 7, 6, 5, 4, 3, 2, 1])\<rparr>)
     ''BTCUSDT''
     = [Get (KLINES_ENDPOINT ''BTCUSDT''), Print (Not_enough_data ''BTCUSDT'')]
   \<and> (\<exists>v. fetch_and_calculate_rsi
     (offline\<lparr>klines := \<lambda>coin. Response 200 (map candle [14, 13, 12, 11, 10, 9, 8, 7, 6, 5, 4, 3, 2, 1])\<rparr>)
     ''BTCUSDT''
     = (Inr (Some (Num v)), [Get (KLINES_ENDPOINT ''BTCUSDT'')]) \<and> 0 \<le> v \<and> v \<le> 100)"
proof -
  let ?short = "map candle [13, 12, 11, 10, 9, 8, 7, 6, 5, 4, 3, 2, 1]"
  let ?long = "map candle [14, 13, 12, 11, 10, 9, 8, 7, 6, 5, 4, 3, 2, 1]"
  have a: "klines (offline\<lparr>klines := \<lambda>coin. Response 200 ?short\<rparr>) ''BTCUSDT'' = Response 200 ?short"
    by simp
  have b: "klines (offline\<lparr>klines := \<lambda>coin. Response 200 ?long\<rparr>) ''BTCUSDT'' = Response 200 ?long"
    by simp
  have s: "int (length ?short) < RSI_PERIOD"
    by (simp add: RSI_PERIOD_def)
  have l: "RSI_PERIOD \<le> int (length ?long)"
    by (simp add: RSI_PERIOD_def)
  from insufficient_data_condition [OF a] s insufficient_data_condition [OF b] l
  show ?thesis
    by blast
qed

text \<open>
  Fourteen candles, as many as the period, all closing at 1: the guard
  \<open>len(data) < RSI_PERIOD\<close> lets them pass, the indicator is computed from the seed alone
  and is 0, and the symbol is reported as a match.
\<close>

theorem insufficient_data_counterexample:
  "int (length (map candle [1, 1, 1, 1, 1, 1, 1, 1, 1, 1, 1, 1, 1, 1])) \<le> RSI_PERIOD
   \<and> fetch_and_calculate_rsi
       \<lparr>exchange_info = Unreachable,
          klines = \<lambda>coin. Response 200 (map candle [1, 1, 1, 1, 1, 1, 1, 1, 1, 1, 1, 1, 1, 1]),
          ticker_price = \<lambda>coin. Response 200 1\<rparr>
       ''BTCUSDT''
       = (Inr (Some (Num 0)), [Get (KLINES_ENDPOINT ''BTCUSDT'')])
   \<and> process_symbol
       \<lparr>exchange_info = Unreachable,
          klines = \<lambda>coin. Response 200 (map candle [1, 1, 1, 1, 1, 1, 1, 1, 1, 1, 1, 1, 1, 1]),
          ticker_price = \<lambda>coin. Response 200 1\<rparr>
       ''BTCUSDT''
       = [Get (KLINES_ENDPOINT ''BTCUSDT''), Get (PRICE_ENDPOINT ''BTCUSDT''),
          Print (Match ''BTCUSDT'' (Num 0) 1)]"
  by (simp add: io_eval rsi_eval)

subsection \<open>A match whose price cannot be fetched\<close>

text \<open>
  Claim C9 asks that a symbol whose indicator is below the threshold is still reported
  when the request for its spot price fails. The code does not do so: with fourteen
  falling closes (indicator 0) and a price request answered with status 500,
  \<open>get_current_price\<close> prints its diagnostic and returns \<open>None\<close>, the match line
  then fails to format \<open>None\<close> with \<open>:.4f\<close>, and \<open>process_symbol\<close> prints the
  TypeError it catches. No match line is printed; by \<open>no_match_without_price\<close> this is
  so for every symbol whose price request fails.
\<close>

theorem price_failure_drops_the_match:
  "fetch_and_calculate_rsi
       \<lparr>exchange_info = Unreachable,
          klines = \<lambda>coin. Response 200 (map candle [14, 13, 12, 11, 10, 9, 8, 7, 6, 5, 4, 3, 2, 1]),
          ticker_price = \<lambda>coin. Response 500 0\<rparr>
       ''BTCUSDT''
       = (Inr (Some (Num 0)), [Get (KLINES_ENDPOINT ''BTCUSDT'')])
   \<and> below (Num 0) RSI_THRESHOLD
   \<and> get_current_price
       \<lparr>exchange_info = Unreachable,
          klines = \<lambda>coin. Response 200 (map candle [14, 13, 12, 11, 10, 9, 8, 7, 6, 5, 4, 3, 2, 1]),
          ticker_price = \<lambda>coin. Response 500 0\<rparr>
       ''BTCUSDT''
       = (Inr None, [Get (PRICE_ENDPOINT ''BTCUSDT''), Print (Failed_price ''BTCUSDT'')])
   \<and> process_symbol
       \<lparr>exchange_info = Unreachable,
          klines = \<lambda>coin. Response 200 (map candle [14, 13, 12, 11, 10, 9, 8, 7, 6, 5, 4, 3, 2, 1]),
          ticker_price = \<lambda>coin. Response 500 0\<rparr>
       ''BTCUSDT''
       = [Get (KLINES_ENDPOINT ''BTCUSDT''), Get (PRICE_ENDPOINT ''BTCUSDT''),
          Print (Failed_price ''BTCUSDT''), Print (Error_occurred ''BTCUSDT'' TypeError)]"
  by (simp add: io_eval rsi_eval)

subsection \<open>The listing endpoint cannot be reached\<close>

text \<open>
  Claim C7 asks that, without a cache file, a listing request that does not succeed yields
  an empty universe and a diagnostic, and never a crash. For a response with a status
  other than 200 the code does this (\<open>listing_status_failure\<close>). When the request itself
  raises, the exception is caught neither in \<open>get_usdt_pairs\<close> nor in
  \<open>find_low_rsi_coins\<close>: the run ends with the exception, no diagnostic, after the request.
\<close>

theorem listing_unreachable_crashes:
  "get_usdt_pairs offline first_run
     = (Inl ConnectionError,
        \<lparr>coins_file = None, events = [Print Fetching_pairs, Get SYMBOLS_ENDPOINT]\<rparr>)
   \<and> find_low_rsi_coins offline None first_run
     = {(Inl ConnectionError,
         \<lparr>coins_file = None,
            events = [Print Querying_all, Print Fetching_pairs, Get SYMBOLS_ENDPOINT]\<rparr>)}"
  by (simp add: io_eval upper_def strip_def)

subsection \<open>Bounds that keep the sums finite, and ASCII text\<close>

lemma no_decrease_gives_zero:
  assumes "2 \<le> period" and "period \<le> int (length prices)" and "sorted prices"
  shows "calculate_precise_rsi prices period = Inr (Num 0)"
proof -
  from averages_nonneg [OF assms(1,2)] obtain gs ls where
    e: "ema_lists prices period = Inr (gs, ls)"
    by blast
  from zero_loss_average [OF assms e] calculate_precise_rsi_last [OF e] show ?thesis
    by (simp add: rsi_zero_loss)
qed

lemma DBL_MAX_pos: "0 < DBL_MAX"
  by (simp add: DBL_MAX_def)

lemma spec_gain_le:
  assumes "\<forall>p \<in> set ps. 0 \<le> p \<and> p \<le> b" and "x \<in> set (spec_gain ps)"
  shows "x \<le> b"
proof -
  from assms(2) obtain a c where ac: "(a, c) \<in> set (zip ps (tl ps))" and x: "x = max 0 (c - a)"
    by (auto simp: spec_gain_def spec_diffs_def)
  from ac have "a \<in> set ps" and "c \<in> set (tl ps)"
    by (auto dest: set_zip_leftD set_zip_rightD)
  then have "a \<in> set ps" and "c \<in> set ps"
    by (auto dest: list.set_sel(2) [rotated])
  with assms(1) have "0 \<le> a" "c \<le> b" "0 \<le> c" by auto
  with x show ?thesis by auto
qed

lemma spec_loss_le:
  assumes "\<forall>p \<in> set ps. 0 \<le> p \<and> p \<le> b" and "x \<in> set (spec_loss ps)"
  shows "x \<le> b"
proof -
  from assms(2) obtain a c where ac: "(a, c) \<in> set (zip ps (tl ps))" and x: "x = \<bar>min (c - a) 0\<bar>"
    by (auto simp: spec_loss_def spec_diffs_def)
  from ac have "a \<in> set ps" and "c \<in> set (tl ps)"
    by (auto dest: set_zip_leftD set_zip_rightD)
  then have "a \<in> set ps" and "c \<in> set ps"
    by (auto dest: list.set_sel(2) [rotated])
  with assms(1) have "0 \<le> a" "a \<le> b" "0 \<le> c" by auto
  with x show ?thesis by (auto simp: min_def)
qed

lemma sum_list_le_length:
  "\<forall>x \<in> set xs. x \<le> (b::real) \<Longrightarrow> sum_list xs \<le> real (length xs) * b"
  by (induction xs) (auto simp: algebra_simps)

lemma ema_step_in_range:
  assumes "0 \<le> a" and "a \<le> 1" and "in_range b x" and "in_range b avg"
  shows "in_range b (ema_step a x avg)"
proof -
  from assms(3,4) obtain X A where xa: "x = Num X" "avg = Num A"
    and b: "0 \<le> X" "X \<le> b" "0 \<le> A" "A \<le> b"
    by (cases x; cases avg) simp_all
  from assms(1,2) b have "X * a \<le> b * a" and "A * (1 - a) \<le> b * (1 - a)"
    by (simp_all add: mult_right_mono)
  then have "X * a + A * (1 - a) \<le> b * a + b * (1 - a)"
    by (rule add_mono)
  also have "\<dots> = b" by (simp add: algebra_simps)
  finally have "X * a + A * (1 - a) \<le> b" .
  moreover from assms(1,2) b have "0 \<le> X * a + A * (1 - a)" by simp
  ultimately show ?thesis by (simp add: xa ema_step_def)
qed

lemma ema_run_in_range:
  assumes "0 \<le> a" and "a \<le> 1" and "in_range b seed" and "\<forall>x \<in> set xs. in_range b x"
  shows "\<forall>y \<in> set (ema_run a seed xs). in_range b y"
  using assms(3,4)
proof (induction xs arbitrary: seed)
  case Nil
  then show ?case by simp
next
  case (Cons x xs)
  from Cons.prems have s: "in_range b (ema_step a x seed)"
    by (intro ema_step_in_range assms(1,2)) simp_all
  with Cons.IH [OF s] Cons.prems show ?case by simp
qed


lemma in_range_mono: "in_range b x \<Longrightarrow> b \<le> c \<Longrightarrow> in_range c x"
  by (cases x) simp_all

lemma seed_sum_le:
  assumes "2 \<le> period" and "period \<le> int (length ps)"
    and "series = NaN # map Num xs" and "length xs = length ps - 1"
    and "\<forall>x \<in> set xs. 0 \<le> x \<and> x \<le> b"
  shows "sum_list (nums (slice_to period series)) \<le> (real_of_int period - 1) * b"
proof -
  have "slice_to period series = NaN # map Num (take (nat period - 1) xs)"
    using assms by (simp add: slice_to_def take_Cons' take_map)
  then have n: "nums (slice_to period series) = take (nat period - 1) xs"
    by (simp add: nums_map_Num)
  have "\<forall>x \<in> set (take (nat period - 1) xs). x \<le> b"
    using assms(5) by (auto dest: in_set_takeD)
  from sum_list_le_length [OF this]
  have "sum_list (take (nat period - 1) xs) \<le> real (length (take (nat period - 1) xs)) * b" .
  moreover have "length (take (nat period - 1) xs) = nat period - 1"
    using assms by simp
  moreover have "real (nat period - 1) = real_of_int period - 1"
    using assms by (simp add: of_nat_diff)
  ultimately show ?thesis
    by (simp add: n)
qed

lemma seed_in_range:
  assumes "2 \<le> period" and "period \<le> int (length ps)"
    and "series = NaN # map Num xs" and "length xs = length ps - 1"
    and "\<forall>x \<in> set xs. 0 \<le> x \<and> x \<le> b"
  shows "in_range b (mean (slice_to period series))"
proof -
  let ?s = "sum_list (take (nat period - 1) xs)"
  have "set (take (nat period - 1) xs) \<subseteq> set xs" by (rule set_take_subset)
  with assms(5) have nonneg: "0 \<le> ?s"
    by (intro sum_list_nonneg) auto
  have "slice_to period series = NaN # map Num (take (nat period - 1) xs)"
    using assms by (simp add: slice_to_def take_Cons' take_map)
  then have "nums (slice_to period series) = take (nat period - 1) xs"
    by (simp add: nums_map_Num)
  with seed_sum_le [OF assms] have le: "?s \<le> (real_of_int period - 1) * b"
    by simp
  from assms(1) have pos: "0 < real_of_int period - 1" by simp
  from le pos have "?s / (real_of_int period - 1) \<le> b"
    by (simp add: pos_divide_le_eq mult.commute)
  moreover from nonneg pos have "0 \<le> ?s / (real_of_int period - 1)" by simp
  ultimately show ?thesis
    by (simp add: seed_mean [OF assms(1-4)])
qed

lemma drop_series_in_range:
  assumes "series = NaN # map Num xs" and "\<forall>x \<in> set xs. 0 \<le> x \<and> x \<le> b" and "1 \<le> k"
  shows "\<forall>y \<in> set (drop k series). in_range b y"
proof -
  from assms(3) obtain j where "k = Suc j" by (cases k) simp_all
  with assms(1) have "drop k series = map Num (drop j xs)" by (simp add: drop_map)
  moreover have "set (drop j xs) \<subseteq> set xs" by (rule set_drop_subset)
  ultimately show ?thesis using assms(2) by auto
qed

lemma averages_in_range:
  assumes "2 \<le> period" and "period \<le> int (length ps)"
    and "series = NaN # map Num xs" and "length xs = length ps - 1"
    and "\<forall>x \<in> set xs. 0 \<le> x \<and> x \<le> b"
  shows "\<forall>y \<in> set (mean (slice_to period series)
                    # ema_run (1 / real_of_int period) (mean (slice_to period series))
                        (drop (nat period) series)). in_range b y"
proof -
  from assms(1) have a: "0 \<le> 1 / real_of_int period" "1 / real_of_int period \<le> 1"
    by simp_all
  from assms(1) have k: "1 \<le> nat period" by simp
  note s = seed_in_range [OF assms]
  from ema_run_in_range [OF a s drop_series_in_range [OF assms(3,5) k]] s show ?thesis
    by simp
qed

lemma DBL_MAX_large: "1000 \<le> DBL_MAX / 2"
  by (simp add: DBL_MAX_def)

lemma strip_subset: "set (strip s) \<subseteq> set s"
proof
  fix x
  assume "x \<in> set (strip s)"
  then have "x \<in> set (dropWhile is_space (rev (dropWhile is_space s)))"
    by (simp add: strip_def)
  then have "x \<in> set (rev (dropWhile is_space s))"
    by (rule set_dropWhileD)
  then have "x \<in> set (dropWhile is_space s)"
    by simp
  then show "x \<in> set s"
    by (rule set_dropWhileD)
qed

lemma upper_ascii:
  assumes "\<forall>c \<in> set s. is_ascii c" and "c \<in> set (upper s)"
  shows "is_ascii c"
proof -
  from assms(2) have "c \<in> (\<lambda>d. if is_lower d then char_of ((of_char d :: nat) - 32) else d) ` set s"
    by (simp add: upper_def)
  then obtain d where d: "d \<in> set s"
    and c: "c = (if is_lower d then char_of ((of_char d :: nat) - 32) else d)"
    by blast
  from assms(1) d have "is_ascii d" by blast
  then show ?thesis
    unfolding c by (auto simp: is_ascii_def is_lower_def)
qed

subsection \<open>A series without decreases\<close>

text \<open>
  Claim C1 asks that a series with no decreases after the seed window raises no division
  fault and yields exactly 100. The code raises nothing, but it yields 0: without a
  decrease the average loss is 0, the guard of the division leaves \<open>rs\<close> at 0, and
  \<open>100 - 100/(1+0)\<close> is 0 (\<open>no_decrease_gives_zero\<close>, for every such series). Fifteen
  closes that rise by 1 each step get the value of fifteen closes that fall by 1, and the
  rising coin is printed as a match below the threshold of 30.
\<close>

theorem rising_series_reported_as_oversold:
  "calculate_precise_rsi [1, 2, 3, 4, 5, 6, 7, 8, 9, 10, 11, 12, 13, 14, 15] RSI_PERIOD
     = Inr (Num 0)
   \<and> calculate_precise_rsi [1, 2, 3, 4, 5, 6, 7, 8, 9, 10, 11, 12, 13, 14, 15] RSI_PERIOD
     \<noteq> Inr (Num 100)
   \<and> calculate_precise_rsi [15, 14, 13, 12, 11, 10, 9, 8, 7, 6, 5, 4, 3, 2, 1] RSI_PERIOD
     = Inr (Num 0)
   \<and> process_symbol
       \<lparr>exchange_info = Unreachable,
          klines = \<lambda>coin. Response 200
                     (map candle [1, 2, 3, 4, 5, 6, 7, 8, 9, 10, 11, 12, 13, 14, 15]),
          ticker_price = \<lambda>coin. Response 200 15\<rparr>
       ''BTCUSDT''
     = [Get (KLINES_ENDPOINT ''BTCUSDT''), Get (PRICE_ENDPOINT ''BTCUSDT''),
        Print (Match ''BTCUSDT'' (Num 0) 15)]"
  by (simp add: io_eval rsi_eval)

subsection \<open>The range of the indicator\<close>

text \<open>
  Claim C6, as amended. For a period of at least 2 and every price series longer than the
  period whose closes lie between 0 and \<open>DBL_MAX / period\<close>, the sums taken for the two
  seeds and all the averages stay between 0 and the largest double, and the value
  returned, \<open>100 - 100/(1+rs)\<close> of the last averages, is a number between 0 and 100.
  (The quotient \<open>rs\<close> itself is not bounded; where it is infinite in the code,
  \<open>100/(1+rs)\<close> is 0 and the value is 100.)
\<close>

theorem rsi_range_invariant:
  assumes "2 \<le> period" and "period < int (length prices)"
    and "\<forall>p \<in> set prices. 0 \<le> p \<and> p \<le> DBL_MAX / real_of_int period"
  shows "\<exists>gains losses r. ema_lists prices period = Inr (gains, losses)
           \<and> sum_list (nums (slice_to period (gain_of prices))) \<le> DBL_MAX
           \<and> sum_list (nums (slice_to period (loss_of prices))) \<le> DBL_MAX
           \<and> (\<forall>a \<in> set gains \<union> set losses. in_range DBL_MAX a)
           \<and> calculate_precise_rsi prices period = Inr (Num r) \<and> 0 \<le> r \<and> r \<le> 100"
proof -
  let ?b = "DBL_MAX / real_of_int period"
  let ?a = "1 / real_of_int period"
  let ?g = "gain_of prices" and ?l = "loss_of prices"
  let ?gains = "mean (slice_to period ?g) # ema_run ?a (mean (slice_to period ?g)) (drop (nat period) ?g)"
  let ?losses = "mean (slice_to period ?l) # ema_run ?a (mean (slice_to period ?l)) (drop (nat period) ?l)"
  from assms(1,2) have len: "period \<le> int (length prices)" and ne: "prices \<noteq> []" and p1: "1 \<le> period"
    by auto
  from assms(1) have pos: "0 < real_of_int period" by simp
  have bmax: "?b \<le> DBL_MAX"
    using assms(1) DBL_MAX_pos by (simp add: pos_divide_le_eq)
  have scale: "(real_of_int period - 1) * ?b \<le> DBL_MAX"
  proof -
    have "(real_of_int period - 1) * ?b \<le> real_of_int period * ?b"
      using pos DBL_MAX_pos by (intro mult_right_mono) simp_all
    also have "\<dots> = DBL_MAX" using pos by simp
    finally show ?thesis .
  qed
  have gb: "\<forall>x \<in> set (spec_gain prices). 0 \<le> x \<and> x \<le> ?b"
    using spec_gain_le [OF assms(3)] spec_gain_nonneg by blast
  have lb: "\<forall>x \<in> set (spec_loss prices). 0 \<le> x \<and> x \<le> ?b"
    using spec_loss_le [OF assms(3)] spec_loss_nonneg by blast
  note G = gain_of_spec [OF ne] and L = loss_of_spec [OF ne]
  have e: "ema_lists prices period = Inr (?gains, ?losses)"
    by (rule ema_lists_valid [OF p1 len])
  have sg: "sum_list (nums (slice_to period ?g)) \<le> DBL_MAX"
    using seed_sum_le [OF assms(1) len G length_spec_gain gb] scale by linarith
  have sl: "sum_list (nums (slice_to period ?l)) \<le> DBL_MAX"
    using seed_sum_le [OF assms(1) len L length_spec_loss lb] scale by linarith
  have "\<forall>y \<in> set ?gains. in_range ?b y"
    by (rule averages_in_range [OF assms(1) len G length_spec_gain gb])
  moreover have "\<forall>y \<in> set ?losses. in_range ?b y"
    by (rule averages_in_range [OF assms(1) len L length_spec_loss lb])
  ultimately have r: "\<forall>a \<in> set ?gains \<union> set ?losses. in_range DBL_MAX a"
    using bmax by (blast intro: in_range_mono)
  from rsi_in_range [OF assms(1) len] obtain v where
    v: "calculate_precise_rsi prices period = Inr (Num v)" "0 \<le> v" "v \<le> 100"
    by force
  from e sg sl r v show ?thesis
    by blast
qed

theorem rsi_range_invariant_witness:
  "(2::int) \<le> 2 \<and> 2 < int (length [3, 2, 1, 2 :: real])
   \<and> (\<exists>gains losses r. ema_lists [3, 2, 1, 2] 2 = Inr (gains, losses)
         \<and> sum_list (nums (slice_to 2 (gain_of [3, 2, 1, 2]))) \<le> DBL_MAX
         \<and> sum_list (nums (slice_to 2 (loss_of [3, 2, 1, 2]))) \<le> DBL_MAX
         \<and> (\<forall>a \<in> set gains \<union> set losses. in_range DBL_MAX a)
         \<and> calculate_precise_rsi [3, 2, 1, 2] 2 = Inr (Num r) \<and> 0 \<le> r \<and> r \<le> 100)"
proof -
  have h1: "(2::int) \<le> 2"
    by simp
  have h2: "(2::int) < int (length [3, 2, 1, 2 :: real])"
    by simp
  have h3: "\<forall>p \<in> set [3, 2, 1, 2 :: real]. 0 \<le> p \<and> p \<le> DBL_MAX / real_of_int 2"
    using DBL_MAX_large by simp
  from rsi_range_invariant [OF h1 h2 h3] h1 h2 show ?thesis
    by blast
qed

text \<open>
  With a period of 1 the seed window holds only the undefined first difference: the seed
  is NaN, and so is the value returned for a series of two closes. With fifteen closes
  that alternate between 0 and \<open>2^1023\<close>, and the program's period, the sums that
  \<open>mean()\<close> takes for the seeds pass the largest double: in the code both seeds are
  infinite and their quotient is NaN.
\<close>

theorem rsi_range_counterexample:
  "(1::int) < int (length [1, 2 :: real])
   \<and> calculate_precise_rsi [1, 2] 1 = Inr NaN
   \<and> RSI_PERIOD < int (length [0, 2 ^ 1023, 0, 2 ^ 1023, 0, 2 ^ 1023, 0, 2 ^ 1023, 0,
                                 2 ^ 1023, 0, 2 ^ 1023, 0, 2 ^ 1023, 0 :: real])
   \<and> DBL_MAX < sum_list (nums (slice_to RSI_PERIOD
                 (gain_of [0, 2 ^ 1023, 0, 2 ^ 1023, 0, 2 ^ 1023, 0, 2 ^ 1023, 0,
                           2 ^ 1023, 0, 2 ^ 1023, 0, 2 ^ 1023, 0])))
   \<and> DBL_MAX < sum_list (nums (slice_to RSI_PERIOD
                 (loss_of [0, 2 ^ 1023, 0, 2 ^ 1023, 0, 2 ^ 1023, 0, 2 ^ 1023, 0,
                           2 ^ 1023, 0, 2 ^ 1023, 0, 2 ^ 1023, 0])))"
  by (simp add: rsi_eval RSI_PERIOD_def DBL_MAX_def)

subsection \<open>The single-symbol override\<close>

text \<open>
  Claim C10. A value of \<open>SYMBOL\<close> that is not set, empty or made of whitespace only (all
  that \<open>str.strip()\<close> removes) starts the scan of the whole universe, so an empty symbol
  is never processed. Any other value, of ASCII text, is stripped and converted to upper
  case before it is processed as the single symbol: what is processed is not empty, the
  stripped value has no whitespace at either end, and \<open>upper\<close> keeps the length, leaves
  ASCII text without a lower-case letter and changes no other character.
\<close>

theorem symbol_override_normalization:
  "((\<forall>c \<in> set (getenv env_symbol []). is_space c) \<longrightarrow>
      find_low_rsi_coins r env_symbol w = query_all r w)
   \<and> (\<not> (\<forall>c \<in> set (getenv env_symbol []). is_space c)
        \<and> (\<forall>c \<in> set (getenv env_symbol []). is_ascii c) \<longrightarrow>
      find_low_rsi_coins r env_symbol w
        = query_single r (upper (strip (getenv env_symbol []))) w
      \<and> upper (strip (getenv env_symbol [])) \<noteq> []
      \<and> \<not> is_space (hd (strip (getenv env_symbol [])))
      \<and> \<not> is_space (last (strip (getenv env_symbol [])))
      \<and> length (upper (strip (getenv env_symbol []))) = length (strip (getenv env_symbol []))
      \<and> (\<forall>c \<in> set (upper (strip (getenv env_symbol []))). is_ascii c \<and> \<not> is_lower c)
      \<and> (\<forall>i < length (strip (getenv env_symbol [])).
            \<not> is_lower (strip (getenv env_symbol []) ! i) \<longrightarrow>
            upper (strip (getenv env_symbol [])) ! i = strip (getenv env_symbol []) ! i))"
proof -
  let ?v = "getenv env_symbol []"
  have iff: "upper (strip ?v) = [] \<longleftrightarrow> (\<forall>c \<in> set ?v. is_space c)"
    by (simp only: upper_Nil_iff strip_Nil_iff)
  have 1: "find_low_rsi_coins r env_symbol w = query_all r w" if "\<forall>c \<in> set ?v. is_space c"
    using that iff by (simp add: find_low_rsi_coins_def Let_def)
  have 2: "find_low_rsi_coins r env_symbol w = query_single r (upper (strip ?v)) w
      \<and> upper (strip ?v) \<noteq> []
      \<and> \<not> is_space (hd (strip ?v))
      \<and> \<not> is_space (last (strip ?v))
      \<and> length (upper (strip ?v)) = length (strip ?v)
      \<and> (\<forall>c \<in> set (upper (strip ?v)). is_ascii c \<and> \<not> is_lower c)
      \<and> (\<forall>i < length (strip ?v). \<not> is_lower (strip ?v ! i) \<longrightarrow> upper (strip ?v) ! i = strip ?v ! i)"
    if ns: "\<not> (\<forall>c \<in> set ?v. is_space c)" and asc: "\<forall>c \<in> set ?v. is_ascii c"
  proof -
    from ns iff have ne: "upper (strip ?v) \<noteq> []" by blast
    then have sne: "strip ?v \<noteq> []" by (simp add: upper_Nil_iff)
    from ne have a: "find_low_rsi_coins r env_symbol w = query_single r (upper (strip ?v)) w"
      by (simp add: find_low_rsi_coins_def Let_def)
    from asc strip_subset [of ?v] have "\<forall>c \<in> set (strip ?v). is_ascii c"
      by blast
    then have b: "\<forall>c \<in> set (upper (strip ?v)). is_ascii c \<and> \<not> is_lower c"
      using upper_ascii [of "strip ?v"] upper_no_lower [of _ "strip ?v"] by blast
    have c: "\<forall>i < length (strip ?v). \<not> is_lower (strip ?v ! i) \<longrightarrow> upper (strip ?v) ! i = strip ?v ! i"
      using upper_keeps_others [of _ "strip ?v"] by blast
    from a ne strip_hd [OF sne] strip_last [OF sne] length_upper [of "strip ?v"] b c
    show ?thesis by blast
  qed
  from 1 2 show ?thesis
    by blast
qed

theorem symbol_override_normalization_witness:
  "find_low_rsi_coins offline (Some ''  btcusdt '') first_run
     = query_single offline ''BTCUSDT'' first_run
   \<and> find_low_rsi_coins offline (Some ''   '') first_run = query_all offline first_run
   \<and> find_low_rsi_coins offline (Some [CHR 0xA0]) first_run = query_all offline first_run
   \<and> find_low_rsi_coins offline None first_run = query_all offline first_run"
proof -
  have u: "upper ''btcusdt'' = ''BTCUSDT''"
    by code_simp
  have s: "strip ''  btcusdt '' = ''btcusdt''"
    by (simp add: strip_def is_space_def)
  have g: "getenv (Some ''  btcusdt '') [] = ''  btcusdt ''"
    by (simp add: getenv_def)
  have a: "\<not> (\<forall>c \<in> set (getenv (Some ''  btcusdt '') []). is_space c)
           \<and> (\<forall>c \<in> set (getenv (Some ''  btcusdt '') []). is_ascii c)"
    by (simp add: getenv_def is_space_def is_ascii_def)
  have b: "\<forall>c \<in> set (getenv (Some ''   '') []). is_space c"
    by (simp add: getenv_def is_space_def)
  have n: "\<forall>c \<in> set (getenv (Some [CHR 0xA0]) []). is_space c"
    by (simp add: getenv_def is_space_def)
  have c: "\<forall>c \<in> set (getenv None []). is_space c"
    by (simp add: getenv_def)
  from symbol_override_normalization [of "Some ''  btcusdt ''" offline first_run] a
  have "find_low_rsi_coins offline (Some ''  btcusdt '') first_run
          = query_single offline (upper (strip (getenv (Some ''  btcusdt '') []))) first_run"
    by blast
  then have 1: "find_low_rsi_coins offline (Some ''  btcusdt '') first_run
          = query_single offline ''BTCUSDT'' first_run"
    by (simp only: g s u)
  from symbol_override_normalization [of "Some ''   ''" offline first_run] b
  have 2: "find_low_rsi_coins offline (Some ''   '') first_run = query_all offline first_run"
    by blast
  from symbol_override_normalization [of "Some [CHR 0xA0]" offline first_run] n
  have 3: "find_low_rsi_coins offline (Some [CHR 0xA0]) first_run = query_all offline first_run"
    by blast
  from symbol_override_normalization [of None offline first_run] c
  have 4: "find_low_rsi_coins offline None first_run = query_all offline first_run"
    by blast
  from 1 2 3 4 show ?thesis
    by blast
qed

end
